theory Spec2Isabelle
  imports Complex_Main "HOL-Library.Word" "HOL-Library.Multiset"
begin

section \<open>Input events and shared constants\<close>

text \<open>
  Both tools read \<open>struct input_event\<close> values from the kernel: a \<open>struct timeval\<close>
  (two signed 64-bit fields on the LP64 targets the tools build for), an unsigned 16-bit
  type, an unsigned 16-bit code and a signed 32-bit value. Machine integers are words;
  a signed reading is \<open>sint\<close>.
\<close>

record timeval =
  tv_sec :: "64 word"
  tv_usec :: "64 word"

record input_event =
  time :: timeval
  type :: "16 word"
  code :: "16 word"
  "value" :: "32 word"

text \<open>
  Modelled from the spec: the event types (synchronization, relative, absolute) and the
  axis codes that the handlers compare against. Their declarations are in
  \<open>linux/input-event-codes.h\<close>, which the tools include through \<open>libevdev.h\<close> and
  which is not part of the tools' source files; the numbers are the ones the header gives.
\<close>

definition EV_SYN :: "16 word" where "EV_SYN = 0"
definition EV_REL :: "16 word" where "EV_REL = 2"
definition EV_ABS :: "16 word" where "EV_ABS = 3"
definition REL_X :: "16 word" where "REL_X = 0"
definition ABS_X :: "16 word" where "ABS_X = 0"
definition ABS_Y :: "16 word" where "ABS_Y = 1"
definition ABS_MT_POSITION_X :: "16 word" where "ABS_MT_POSITION_X = 53"
definition ABS_MT_POSITION_Y :: "16 word" where "ABS_MT_POSITION_Y = 54"

section \<open>Mouse tool: the frequency estimator\<close>

text \<open>
  A C \<open>double\<close> is modelled by an exact rational: comparison, subtraction and division
  are the mathematical ones. Every timestamp the tool stores is a microsecond count
  converted from \<open>uint64_t\<close>; below \<open>2^53\<close> the conversion and the subtraction of two
  such values are exact in IEEE arithmetic, and only the final division rounds.
\<close>

type_synonym double = rat

definition EVENT_SIZ :: nat where "EVENT_SIZ = 32"

text \<open>The comparison callback handed to \<open>qsort\<close>.\<close>

definition double_cmp :: "double \<Rightarrow> double \<Rightarrow> int" where
  "double_cmp xx yy = (if xx < yy then - 1 else if xx > yy then 1 else 0)"

text \<open>
  One iteration of the \<open>for\<close> loop of \<open>get_frequency\<close>: the accumulator is the filled
  prefix of \<open>differences\<close>, its length is \<open>d_index\<close>.
\<close>

definition diff_step :: "double list \<Rightarrow> nat \<Rightarrow> double list \<Rightarrow> double list" where
  "diff_step event_times i differences =
     (let next_index = (i + 1) mod EVENT_SIZ
      in if event_times ! i < event_times ! next_index \<and> length differences < EVENT_SIZ - 1
         then differences @ [event_times ! next_index - event_times ! i]
         else differences)"

definition collect_differences :: "double list \<Rightarrow> double list" where
  "collect_differences event_times = fold (diff_step event_times) [0..<EVENT_SIZ] []"

text \<open>
  \<open>qsort\<close> with \<open>double_cmp\<close> orders the \<open>d_index\<close> filled entries ascending; the
  entries of \<open>differences\<close> from \<open>d_index\<close> on are never written. The function then reads
  entry \<open>EVENT_SIZ / 2\<close>: when that entry was never written the value read is
  indeterminate, which the model returns as \<open>None\<close>.
\<close>

definition get_frequency :: "double list \<Rightarrow> double option" where
  "get_frequency event_times =
     (let differences = sort (collect_differences event_times)
      in if EVENT_SIZ div 2 < length differences
         then Some (1000000 / (differences ! (EVENT_SIZ div 2)))
         else None)"


section \<open>Mouse tool: measurements and the event handler\<close>

text \<open>
  \<open>struct measurements\<close> is owned by \<open>main\<close>; \<open>handle_event\<close> keeps the timestamp
  ring, its write index and its validity flag in function-local statics, and
  \<open>print_current_values\<close> keeps the spinner position in another. The model passes all
  of them in one record extending the struct, together with the progress lines written
  so far. \<open>distance\<close> is a C \<open>int\<close> (32 bits, addition wraps), \<open>us\<close> a \<open>uint64_t\<close>.
  \<open>frequency\<close> is \<open>None\<close> once an indeterminate value has been stored in it.
\<close>

text \<open>The three values \<open>print_current_values\<close> substitutes into its format string.\<close>

record progress_line_mouse =
  shown_distance :: "32 word"
  shown_frequency :: "double option"
  shown_status :: char

record measurements =
  distance :: "32 word"
  frequency :: "double option"
  us :: "64 word"

record mouse_state = measurements +
  event_times :: "double list"
  event_times_index :: nat
  event_list_valid :: bool
  progress_mouse :: int
  output_mouse :: "progress_line_mouse list"

text \<open>\<open>struct measurements measurements = {0, 0, 0}\<close> and the zero-initialised statics.\<close>

definition mouse_initial :: mouse_state where
  "mouse_initial =
     \<lparr>distance = 0, frequency = Some 0, us = 0,
      event_times = replicate EVENT_SIZ 0, event_times_index = 0,
      event_list_valid = False, progress_mouse = 0, output_mouse = []\<rparr>"

definition tv2us :: "timeval \<Rightarrow> 64 word" where
  "tv2us tv = tv_sec tv * 1000000 + tv_usec tv"

definition idle_reset :: "64 word" where
  "idle_reset = 3000000"

text \<open>The \<open>max\<close> macro applied to two doubles; an indeterminate operand makes the result so.\<close>

definition max_double :: "double option \<Rightarrow> double option \<Rightarrow> double option" where
  "max_double a b =
     (case a of None \<Rightarrow> None
      | Some x \<Rightarrow> (case b of None \<Rightarrow> None | Some y \<Rightarrow> Some (if x > y then x else y)))"

text \<open>C's \<open>abs\<close> on a 32-bit \<open>int\<close>.\<close>

definition abs_int :: "32 word \<Rightarrow> 32 word" where
  "abs_int x = (if sint x < 0 then - x else x)"

text \<open>
  \<open>print_current_values\<close> writes one progress line and advances the spinner. Its return
  value, always 0, is what \<open>handle_event\<close> returns and \<open>mainloop\<close> ignores.
\<close>

definition status_mouse :: "int \<Rightarrow> char" where
  "status_mouse progress =
     (if progress = 0 then CHR ''|''
      else if progress = 1 then CHR ''/''
      else if progress = 2 then CHR ''-''
      else if progress = 3 then CHR 0x5C
      else CHR ''?'')"

definition print_current_values_mouse :: "mouse_state \<Rightarrow> mouse_state" where
  "print_current_values_mouse m =
     m\<lparr>progress_mouse := (progress_mouse m + 1) mod 4,
       output_mouse := output_mouse m @
         [\<lparr>shown_distance = abs_int (distance m), shown_frequency = frequency m,
           shown_status = status_mouse (progress_mouse m)\<rparr>]\<rparr>"

definition handle_event_mouse :: "mouse_state \<Rightarrow> input_event \<Rightarrow> mouse_state" where
  "handle_event_mouse m ev =
     (if type ev = EV_SYN then
        (let last_us = us m;
             m1 = m\<lparr>us := tv2us (time ev)\<rparr>
         in if last_us + idle_reset < us m1 then
              m1\<lparr>frequency := Some 0, distance := 0,
                 event_times_index := 0, event_list_valid := False\<rparr>
            else
              (let m2 = m1\<lparr>event_times :=
                             (event_times m1)[event_times_index m1 := of_nat (unat (us m1))],
                           event_times_index := event_times_index m1 + 1\<rparr>;
                   m3 = (if event_times_index m2 = EVENT_SIZ
                         then m2\<lparr>event_list_valid := True, event_times_index := 0\<rparr>
                         else m2);
                   m4 = (if event_list_valid m3
                         then m3\<lparr>frequency :=
                                   max_double (get_frequency (event_times m3)) (frequency m3)\<rparr>
                         else m3)
               in print_current_values_mouse m4))
      else if type ev \<noteq> EV_REL then m
      else if code ev = REL_X then m\<lparr>distance := distance m + value ev\<rparr>
      else m)"

text \<open>
  \<open>print_summary\<close> replaces \<open>m->distance\<close> by its absolute value and prints that field in
  the resolution hints; the table rows and the frequency line are output only.
\<close>

definition print_summary :: "mouse_state \<Rightarrow> mouse_state" where
  "print_summary m = m\<lparr>distance := abs_int (distance m)\<rparr>"

section \<open>Touchpad tool: dimensions and the event handler\<close>

text \<open>
  The four bounds are C \<open>int\<close>s compared as signed numbers by the \<open>min\<close> and \<open>max\<close> macros.
  The field \<open>top\<close> is written \<open>top'\<close>, the plain name being the top element of a lattice.
\<close>

record dimensions =
  top' :: "32 word"
  bottom :: "32 word"
  left :: "32 word"
  right :: "32 word"

text \<open>The five values \<open>print_current_values\<close> substitutes into its format string.\<close>

record progress_line_touchpad =
  shown_left :: "32 word"
  shown_right :: "32 word"
  shown_top :: "32 word"
  shown_bottom :: "32 word"
  shown_spinner :: char

record touchpad_state = dimensions +
  progress_touchpad :: int
  output_touchpad :: "progress_line_touchpad list"

definition INT_MAX :: "32 word" where "INT_MAX = 2147483647"
definition INT_MIN :: "32 word" where "INT_MIN = 2147483648"

definition min_int :: "32 word \<Rightarrow> 32 word \<Rightarrow> 32 word" where
  "min_int a b = (if sint a < sint b then a else b)"

definition max_int :: "32 word \<Rightarrow> 32 word \<Rightarrow> 32 word" where
  "max_int a b = (if sint a > sint b then a else b)"

text \<open>The assignments of \<open>main\<close> before it enters the wait loop.\<close>

definition touchpad_initial :: touchpad_state where
  "touchpad_initial =
     \<lparr>top' = INT_MAX, bottom = INT_MIN, left = INT_MAX, right = INT_MIN,
      progress_touchpad = 0, output_touchpad = []\<rparr>"

text \<open>The touchpad tool's spinner has no default case: \<open>status\<close> keeps its initial 0.\<close>

definition status_touchpad :: "int \<Rightarrow> char" where
  "status_touchpad progress =
     (if progress = 0 then CHR ''|''
      else if progress = 1 then CHR ''/''
      else if progress = 2 then CHR ''-''
      else if progress = 3 then CHR 0x5C
      else CHR 0x00)"

definition print_current_values_touchpad :: "touchpad_state \<Rightarrow> touchpad_state" where
  "print_current_values_touchpad d =
     d\<lparr>progress_touchpad := (progress_touchpad d + 1) mod 4,
       output_touchpad := output_touchpad d @
         [\<lparr>shown_left = left d, shown_right = right d, shown_top = top' d,
           shown_bottom = bottom d, shown_spinner = status_touchpad (progress_touchpad d)\<rparr>]\<rparr>"

definition handle_event_touchpad :: "touchpad_state \<Rightarrow> input_event \<Rightarrow> touchpad_state" where
  "handle_event_touchpad d ev =
     (if type ev = EV_SYN then print_current_values_touchpad d
      else if type ev \<noteq> EV_ABS then d
      else if code ev = ABS_X \<or> code ev = ABS_MT_POSITION_X then
        d\<lparr>left := min_int (left d) (value ev), right := max_int (right d) (value ev)\<rparr>
      else if code ev = ABS_Y \<or> code ev = ABS_MT_POSITION_Y then
        d\<lparr>top' := min_int (top' d) (value ev), bottom := max_int (bottom d) (value ev)\<rparr>
      else d)"


section \<open>The wait loop of both tools\<close>

text \<open>
  Modelled from the spec: the read results "success", "desynchronization" and "no data
  available", and the failure exit status. Their declarations are in \<open>libevdev.h\<close>,
  \<open>errno.h\<close> and \<open>stdlib.h\<close>, which are not part of the tools' source files; the
  numbers are the ones the headers give (for \<open>EAGAIN\<close> the Linux one; only its sign
  matters below).
\<close>

definition LIBEVDEV_READ_STATUS_SUCCESS :: int where "LIBEVDEV_READ_STATUS_SUCCESS = 0"
definition LIBEVDEV_READ_STATUS_SYNC :: int where "LIBEVDEV_READ_STATUS_SYNC = 1"
definition EAGAIN :: int where "EAGAIN = 11"
definition EXIT_FAILURE :: int where "EXIT_FAILURE = 1"

text \<open>
  The device is an environment the program queries: \<open>reads\<close> lists what the successive calls
  of \<open>libevdev_next_event\<close> return (status and event), \<open>polls\<close> what the successive calls
  of \<open>poll\<close> return (its result, and whether \<open>fds[1].revents\<close>, the interrupt signal, is
  set). Both loops can run forever on a device that never stops; on the finite scripts of
  the model a loop that asks for more than the script holds has not returned: the inner
  loop reports \<open>Starved\<close>, the outer loop the status \<open>None\<close>.
\<close>

type_synonym read_result = "int \<times> input_event"
type_synonym poll_result = "int \<times> bool"

datatype control = Return int | Again | Starved

text \<open>
  The \<open>do ... while (rc != -EAGAIN)\<close> loop. The two tools' loops are the same text, they
  differ in the handler they call and the state it updates.
\<close>

fun read_loop ::
  "('s \<Rightarrow> input_event \<Rightarrow> 's) \<Rightarrow> 's \<Rightarrow> read_result list \<Rightarrow> control \<times> 's \<times> read_result list"
where
  "read_loop handle_event s [] = (Starved, s, [])"
| "read_loop handle_event s ((rc, ev) # reads) =
     (if rc = LIBEVDEV_READ_STATUS_SYNC then (Return 1, s, reads)
      else if rc \<noteq> - EAGAIN \<and> rc < 0 then (Return 1, s, reads)
      else
        (let s' = (if rc = LIBEVDEV_READ_STATUS_SUCCESS then handle_event s ev else s)
         in if rc \<noteq> - EAGAIN then read_loop handle_event s' reads else (Again, s', reads)))"

text \<open>The \<open>while (poll(fds, 2, -1))\<close> loop around it (the \<open>__linux__\<close> branch of the mouse tool).\<close>

fun wait_loop ::
  "('s \<Rightarrow> input_event \<Rightarrow> 's) \<Rightarrow> 's \<Rightarrow> poll_result list \<Rightarrow> read_result list
     \<Rightarrow> int option \<times> 's \<times> read_result list"
where
  "wait_loop handle_event s [] reads = (None, s, reads)"
| "wait_loop handle_event s ((n, interrupted) # polls) reads =
     (if n = 0 then (Some 0, s, reads)
      else if interrupted then (Some 0, s, reads)
      else
        (case read_loop handle_event s reads of
           (Return rc, s', reads') \<Rightarrow> (Some rc, s', reads')
         | (Again, s', reads') \<Rightarrow> wait_loop handle_event s' polls reads'
         | (Starved, s', reads') \<Rightarrow> (None, s', reads')))"

definition mainloop_touchpad ::
  "touchpad_state \<Rightarrow> poll_result list \<Rightarrow> read_result list
     \<Rightarrow> int option \<times> touchpad_state \<times> read_result list" where
  "mainloop_touchpad = wait_loop handle_event_touchpad"

definition mainloop_mouse ::
  "mouse_state \<Rightarrow> poll_result list \<Rightarrow> read_result list
     \<Rightarrow> int option \<times> mouse_state \<times> read_result list" where
  "mainloop_mouse = wait_loop handle_event_mouse"

section \<open>The two main functions\<close>

text \<open>
  What \<open>main\<close> is given and what the operating system and the library answer: the argument
  count, \<open>argv[1]\<close>, the results of \<open>open\<close>, \<open>libevdev_new_from_fd\<close> and the first
  \<open>libevdev_grab\<close>, the device's capabilities, and the scripts of the wait loop.
\<close>

record environment =
  argc :: int
  path :: string
  open_result :: int
  new_from_fd_result :: int
  grab_result :: int
  has_event_code :: "16 word \<Rightarrow> 16 word \<Rightarrow> bool"
  polls :: "poll_result list"
  reads :: "read_result list"

text \<open>The calls a run makes that acquire, use or release the device, in order.\<close>

datatype call = Open | New_from_fd | Grab | Ungrab | Mainloop | Print_report | Libevdev_free | Close

definition flag_shaped :: "string \<Rightarrow> bool" where
  "flag_shaped p = (case p of [] \<Rightarrow> False | c # _ \<Rightarrow> c = CHR ''-'')"

text \<open>
  \<open>main\<close> of the touchpad tool: the exit status (\<open>None\<close> while the wait loop has not
  returned) and the calls made. \<open>usage\<close> returns 1.
\<close>

definition main_touchpad :: "environment \<Rightarrow> int option \<times> call list" where
  "main_touchpad env =
     (if argc env < 2 then (Some 1, [])
      else if flag_shaped (path env) then (Some 1, [])
      else if open_result env < 0 then (Some 1, [Open])
      else if new_from_fd_result env \<noteq> 0 then (Some 1, [Open, New_from_fd])
      else if grab_result env \<noteq> 0 then (Some 1, [Open, New_from_fd, Grab])
      else if \<not> has_event_code env EV_ABS ABS_X \<or> \<not> has_event_code env EV_ABS ABS_Y then
        (Some EXIT_FAILURE, [Open, New_from_fd, Grab, Ungrab, Libevdev_free, Close])
      else
        (case mainloop_touchpad touchpad_initial (polls env) (reads env) of
           (None, d, rest) \<Rightarrow> (None, [Open, New_from_fd, Grab, Ungrab, Mainloop])
         | (Some rc, d, rest) \<Rightarrow>
             (Some rc, [Open, New_from_fd, Grab, Ungrab, Mainloop, Print_report,
                        Libevdev_free, Close])))"

text \<open>\<open>main\<close> of the mouse tool; it has no capability check.\<close>

definition main_mouse :: "environment \<Rightarrow> int option \<times> call list" where
  "main_mouse env =
     (if argc env < 2 then (Some 1, [])
      else if flag_shaped (path env) then (Some 1, [])
      else if open_result env < 0 then (Some 1, [Open])
      else if new_from_fd_result env \<noteq> 0 then (Some 1, [Open, New_from_fd])
      else if grab_result env \<noteq> 0 then (Some 1, [Open, New_from_fd, Grab])
      else
        (case mainloop_mouse mouse_initial (polls env) (reads env) of
           (None, m, rest) \<Rightarrow> (None, [Open, New_from_fd, Grab, Ungrab, Mainloop])
         | (Some rc, m, rest) \<Rightarrow>
             (Some rc, [Open, New_from_fd, Grab, Ungrab, Mainloop, Print_report,
                        Libevdev_free, Close])))"


section \<open>Notions the statements are about\<close>

subsection \<open>The ring of timestamps\<close>

text \<open>
  Position \<open>i\<close> of the ring is followed by position \<open>(i + 1) mod EVENT_SIZ\<close>. A forward
  pair is a position whose successor holds a strictly greater timestamp; its forward
  difference is the distance between the two.
\<close>

definition forward_pair :: "double list \<Rightarrow> nat \<Rightarrow> bool" where
  "forward_pair ts i = (ts ! i < ts ! ((i + 1) mod EVENT_SIZ))"

definition forward_difference :: "double list \<Rightarrow> nat \<Rightarrow> double" where
  "forward_difference ts i = ts ! ((i + 1) mod EVENT_SIZ) - ts ! i"

text \<open>
  The median as the specification uses the word: the middle element of the sorted values,
  the mean of the two middle ones when their number is even.
\<close>

definition median :: "double list \<Rightarrow> double" where
  "median xs =
     (let s = sort xs; n = length s
      in if odd n then s ! (n div 2) else (s ! (n div 2 - 1) + s ! (n div 2)) / 2)"

text \<open>
  A full window whose events arrived every 1000 microseconds sixteen times and every 2000
  microseconds fifteen times.
\<close>

definition uneven_window :: "double list" where
  "uneven_window = map rat_of_nat
     [0, 1000, 2000, 3000, 4000, 5000, 6000, 7000, 8000, 9000, 10000, 11000, 12000, 13000,
      14000, 15000, 16000, 18000, 20000, 22000, 24000, 26000, 28000, 30000, 32000, 34000,
      36000, 38000, 40000, 42000, 44000, 46000]"

text \<open>A full window of events 8000 microseconds apart.\<close>

definition even_window :: "double list" where
  "even_window = map (\<lambda>i. 1700000000000000 + 8000 * rat_of_nat i) [0..<32]"

subsection \<open>Runs of the mouse tool\<close>

text \<open>
  The gap, in microseconds, between the event being handled and the synchronization event
  handled before it, whose timestamp is still in \<open>us\<close>.
\<close>

definition gap_us :: "mouse_state \<Rightarrow> input_event \<Rightarrow> int" where
  "gap_us m ev = uint (tv2us (time ev)) - uint (us m)"

definition syn_at :: "64 word \<Rightarrow> 64 word \<Rightarrow> input_event" where
  "syn_at sec usec =
     \<lparr>time = \<lparr>tv_sec = sec, tv_usec = usec\<rparr>, type = EV_SYN, code = 0, value = 0\<rparr>"

definition rel_x :: "32 word \<Rightarrow> input_event" where
  "rel_x v = \<lparr>time = \<lparr>tv_sec = 0, tv_usec = 0\<rparr>, type = EV_REL, code = REL_X, value = v\<rparr>"

text \<open>A state in mid-measurement: five units covered, last synchronization at second 1.\<close>

definition paused_state :: mouse_state where
  "paused_state = mouse_initial\<lparr>distance := 5, us := 1000000\<rparr>"

text \<open>
  The ring holds \<open>EVENT_SIZ\<close> entries and the write index stays inside it, so that the
  write \<open>event_times[event_times_index++]\<close> is always within the array.
\<close>

definition wellformed :: "mouse_state \<Rightarrow> bool" where
  "wellformed m = (length (event_times m) = EVENT_SIZ \<and> event_times_index m < EVENT_SIZ)"

definition is_rel_x :: "input_event \<Rightarrow> bool" where
  "is_rel_x ev = (type ev = EV_REL \<and> code ev = REL_X)"

definition rel_x_values :: "input_event list \<Rightarrow> 32 word list" where
  "rel_x_values evs = map value (filter is_rel_x evs)"

text \<open>
  The events handled since the most recent idle reset, or all of them when none occurred:
  \<open>last_us\<close> follows the timestamps of the synchronization events, and the collected
  events are dropped at each synchronization event that meets the reset condition.
\<close>

fun events_since_reset ::
  "64 word \<Rightarrow> input_event list \<Rightarrow> input_event list \<Rightarrow> input_event list" where
  "events_since_reset last_us acc [] = acc"
| "events_since_reset last_us acc (ev # evs) =
     (if type ev = EV_SYN then
        (if last_us + idle_reset < tv2us (time ev)
         then events_since_reset (tv2us (time ev)) [] evs
         else events_since_reset (tv2us (time ev)) (acc @ [ev]) evs)
      else events_since_reset last_us (acc @ [ev]) evs)"

definition run_mouse :: "input_event list \<Rightarrow> mouse_state" where
  "run_mouse evs = foldl handle_event_mouse mouse_initial evs"

definition signed_sum :: "32 word list \<Rightarrow> int" where
  "signed_sum ws = sum_list (map sint ws)"

text \<open>
  Seven units right, a pause of ten seconds, three and four units left, a synchronization
  event one second later.
\<close>

definition back_and_forth :: "input_event list" where
  "back_and_forth = [rel_x 7, syn_at 10 0, rel_x (- 3), rel_x (- 4), syn_at 11 0]"

text \<open>Two motions that add up to one more than an \<open>int\<close> holds, and one motion of \<open>INT_MIN\<close>.\<close>

definition past_int_max :: "input_event list" where
  "past_int_max = [rel_x INT_MAX, rel_x 1]"

definition at_int_min :: "input_event list" where
  "at_int_min = [rel_x INT_MIN]"

subsection \<open>Runs of the touchpad tool\<close>

definition is_abs_x :: "input_event \<Rightarrow> bool" where
  "is_abs_x ev = (type ev = EV_ABS \<and> (code ev = ABS_X \<or> code ev = ABS_MT_POSITION_X))"

definition is_abs_y :: "input_event \<Rightarrow> bool" where
  "is_abs_y ev = (type ev = EV_ABS \<and> (code ev = ABS_Y \<or> code ev = ABS_MT_POSITION_Y))"

definition x_values :: "input_event list \<Rightarrow> int list" where
  "x_values evs = map (\<lambda>ev. sint (value ev)) (filter is_abs_x evs)"

definition y_values :: "input_event list \<Rightarrow> int list" where
  "y_values evs = map (\<lambda>ev. sint (value ev)) (filter is_abs_y evs)"

definition run_touchpad :: "input_event list \<Rightarrow> touchpad_state" where
  "run_touchpad evs = foldl handle_event_touchpad touchpad_initial evs"

definition abs_event :: "16 word \<Rightarrow> 32 word \<Rightarrow> input_event" where
  "abs_event c v = \<lparr>time = \<lparr>tv_sec = 0, tv_usec = 0\<rparr>, type = EV_ABS, code = c, value = v\<rparr>"

text \<open>One finger stroke reported through the single-touch and the multi-touch codes.\<close>

definition stroke :: "input_event list" where
  "stroke =
     [abs_event ABS_X 40, abs_event ABS_Y 300, syn_at 0 0,
      abs_event ABS_MT_POSITION_X 25, abs_event ABS_MT_POSITION_Y 310, syn_at 0 8000,
      abs_event ABS_X 31]"

subsection \<open>Reads performed by the wait loop\<close>

text \<open>
  Of the reads a loop has performed: whether one of them returned the desynchronization
  status, and the events of those that returned success, which are the ones handed to
  the handler.
\<close>

definition desync_in :: "read_result list \<Rightarrow> bool" where
  "desync_in rs = (LIBEVDEV_READ_STATUS_SYNC \<in> fst ` set rs)"

definition handled :: "read_result list \<Rightarrow> input_event list" where
  "handled rs = map snd (filter (\<lambda>r. fst r = LIBEVDEV_READ_STATUS_SUCCESS) rs)"

subsection \<open>Devices\<close>

text \<open>A device node that opens and can be grabbed, with every capability asked for.\<close>

definition plain_device :: environment where
  "plain_device =
     \<lparr>argc = 2, path = ''/dev/input/event0'', open_result = 3, new_from_fd_result = 0,
      grab_result = 0, has_event_code = (\<lambda>t c. True), polls = [], reads = []\<rparr>"

text \<open>The same device without absolute axes, as a mouse is.\<close>

definition no_axes_device :: environment where
  "no_axes_device = plain_device\<lparr>has_event_code := (\<lambda>t c. t \<noteq> EV_ABS)\<rparr>"

text \<open>The same device while another process holds the grab (\<open>EBUSY\<close>).\<close>

definition grabbed_device :: environment where
  "grabbed_device = plain_device\<lparr>grab_result := - 16\<rparr>"

text \<open>A node whose device information cannot be fetched (\<open>ENOTTY\<close>).\<close>

definition opaque_device :: environment where
  "opaque_device = plain_device\<lparr>new_from_fd_result := - 25\<rparr>"

text \<open>
  A device that delivers one event, then reports that the reader fell behind, with one
  more event queued after that; \<open>poll\<close> reports the device readable once.
\<close>

definition overrun_reads :: "read_result list" where
  "overrun_reads =
     [(LIBEVDEV_READ_STATUS_SUCCESS, abs_event ABS_X 5),
      (LIBEVDEV_READ_STATUS_SYNC, abs_event ABS_X 9)]"

definition unread_reads :: "read_result list" where
  "unread_reads = [(LIBEVDEV_READ_STATUS_SUCCESS, abs_event ABS_X 7)]"

definition overrun_device :: environment where
  "overrun_device = plain_device\<lparr>polls := [(1, False)], reads := overrun_reads @ unread_reads\<rparr>"


section \<open>The frequency estimator\<close>

subsection \<open>What the loop collects\<close>

lemma double_cmp_le: "(double_cmp x y \<le> 0) = (x \<le> y)"
  by (simp add: double_cmp_def)

text \<open>
  \<open>qsort\<close> leaves a rearrangement of the entries that is ordered by the callback; there
  is one such list, the one \<open>sort\<close> computes.
\<close>

lemma qsort_result:
  assumes "mset ys = mset xs" and "sorted_wrt (\<lambda>x y. double_cmp x y \<le> 0) ys"
  shows "ys = sort xs"
proof -
  from assms(2) have "sorted ys"
    by (simp add: double_cmp_le [abs_def])
  with assms(1) show ?thesis
    by (simp add: properties_for_sort)
qed

lemma diff_step_room:
  "length ds < EVENT_SIZ - 1 \<Longrightarrow>
   diff_step ts i ds = (if forward_pair ts i then ds @ [forward_difference ts i] else ds)"
  by (simp add: diff_step_def forward_pair_def forward_difference_def Let_def)

lemma fold_diff_step_prefix:
  "n < EVENT_SIZ \<Longrightarrow>
   fold (diff_step ts) [0..<n] [] = map (forward_difference ts) (filter (forward_pair ts) [0..<n])"
proof (induction n)
  case 0
  then show ?case by simp
next
  case (Suc n)
  have "length (filter (forward_pair ts) [0..<n]) \<le> n"
    using length_filter_le [of "forward_pair ts" "[0..<n]"] by simp
  with Suc.prems
  have room: "length (map (forward_difference ts) (filter (forward_pair ts) [0..<n])) < EVENT_SIZ - 1"
    by simp
  from Suc show ?case
    by (simp add: diff_step_room [OF room])
qed

text \<open>Forward pairs at all positions below \<open>k\<close> chain up to \<open>ts ! 0 < ts ! k\<close>.\<close>

lemma all_forward_chain:
  assumes "\<forall>i<n. forward_pair ts i" "n < EVENT_SIZ" "k \<le> n"
  shows "k = 0 \<or> ts ! 0 < ts ! k"
  using assms(3)
proof (induction k)
  case 0
  then show ?case by simp
next
  case (Suc k)
  then have "forward_pair ts k" using assms(1) by simp
  moreover have "(k + 1) mod EVENT_SIZ = Suc k" using Suc.prems assms(2) by simp
  ultimately have step: "ts ! k < ts ! Suc k" by (simp add: forward_pair_def)
  show ?case
  proof (cases "k = 0")
    case True
    with step show ?thesis by simp
  next
    case False
    with Suc have "ts ! 0 < ts ! k" by simp
    with step show ?thesis by simp
  qed
qed

lemma filter_full_all: "length (filter P xs) = length xs \<Longrightarrow> \<forall>x\<in>set xs. P x"
  by (metis filter_id_conv length_filter_less less_irrefl)

lemma upt_EVENT_SIZ: "[0..<EVENT_SIZ] = [0..<EVENT_SIZ - 1] @ [EVENT_SIZ - 1]"
proof -
  have "[0..<Suc (EVENT_SIZ - 1)] = [0..<EVENT_SIZ - 1] @ [EVENT_SIZ - 1]"
    by (rule upt_Suc_append) simp
  moreover have "Suc (EVENT_SIZ - 1) = EVENT_SIZ"
    by (simp add: EVENT_SIZ_def)
  ultimately show ?thesis by (simp only:)
qed

lemma wrap_last_index: "(EVENT_SIZ - 1 + 1) mod EVENT_SIZ = 0"
  by (simp add: EVENT_SIZ_def)

text \<open>
  The ring cannot ascend all the way round: when the first 31 positions are forward
  pairs, the last one, which wraps to position 0, is not.
\<close>

lemma no_full_cycle:
  assumes "\<forall>i<EVENT_SIZ - 1. forward_pair ts i"
  shows "\<not> forward_pair ts (EVENT_SIZ - 1)"
proof -
  have "EVENT_SIZ - 1 = 0 \<or> ts ! 0 < ts ! (EVENT_SIZ - 1)"
    using assms by (rule all_forward_chain) (simp_all add: EVENT_SIZ_def)
  then have "ts ! 0 < ts ! (EVENT_SIZ - 1)" by (simp add: EVENT_SIZ_def)
  then show ?thesis
    unfolding forward_pair_def wrap_last_index by simp
qed

lemma filter_snoc_last:
  "filter P (xs @ [x]) = (if P x then filter P xs @ [x] else filter P xs)"
  by simp

lemma diff_step_last:
  "diff_step ts (EVENT_SIZ - 1)
     (map (forward_difference ts) (filter (forward_pair ts) [0..<EVENT_SIZ - 1])) =
   map (forward_difference ts)
     (filter (forward_pair ts) ([0..<EVENT_SIZ - 1] @ [EVENT_SIZ - 1]))"
proof (cases "length (filter (forward_pair ts) [0..<EVENT_SIZ - 1]) = length [0..<EVENT_SIZ - 1]")
  case True
  then have "\<forall>i\<in>set [0..<EVENT_SIZ - 1]. forward_pair ts i"
    by (rule filter_full_all)
  then have "\<forall>i<EVENT_SIZ - 1. forward_pair ts i" by simp
  then have no: "\<not> forward_pair ts (EVENT_SIZ - 1)" by (rule no_full_cycle)
  then have "\<not> ts ! (EVENT_SIZ - 1) < ts ! ((EVENT_SIZ - 1 + 1) mod EVENT_SIZ)"
    unfolding forward_pair_def .
  then have "diff_step ts (EVENT_SIZ - 1)
       (map (forward_difference ts) (filter (forward_pair ts) [0..<EVENT_SIZ - 1])) =
     map (forward_difference ts) (filter (forward_pair ts) [0..<EVENT_SIZ - 1])"
    by (simp only: diff_step_def Let_def simp_thms if_False)
  then show ?thesis
    using no by (simp only: filter_snoc_last if_False)
next
  case False
  have "length (filter (forward_pair ts) [0..<EVENT_SIZ - 1]) \<le> length [0..<EVENT_SIZ - 1]"
    by (rule length_filter_le)
  with False have "length (filter (forward_pair ts) [0..<EVENT_SIZ - 1]) < EVENT_SIZ - 1"
    by simp
  then have "length (map (forward_difference ts) (filter (forward_pair ts) [0..<EVENT_SIZ - 1]))
      < EVENT_SIZ - 1"
    by simp
  then show ?thesis
    by (simp only: diff_step_room filter_snoc_last if_distrib [of "map (forward_difference ts)"]
        map_append list.map)
qed

text \<open>
  The loop collects the forward differences of exactly the forward pairs of the ring, in
  ring order; the bound \<open>d_index < EVENT_SIZ - 1\<close> never drops one.
\<close>

lemma collect_differences_eq:
  "collect_differences ts =
     map (forward_difference ts) (filter (forward_pair ts) [0..<EVENT_SIZ])"
proof -
  have pre: "fold (diff_step ts) [0..<EVENT_SIZ - 1] [] =
      map (forward_difference ts) (filter (forward_pair ts) [0..<EVENT_SIZ - 1])"
    by (rule fold_diff_step_prefix) (simp add: EVENT_SIZ_def)
  have "collect_differences ts = fold (diff_step ts) ([0..<EVENT_SIZ - 1] @ [EVENT_SIZ - 1]) []"
    unfolding collect_differences_def by (subst upt_EVENT_SIZ) (rule refl)
  also have "\<dots> = diff_step ts (EVENT_SIZ - 1) (fold (diff_step ts) [0..<EVENT_SIZ - 1] [])"
    by simp
  also have "\<dots> = map (forward_difference ts)
      (filter (forward_pair ts) ([0..<EVENT_SIZ - 1] @ [EVENT_SIZ - 1]))"
    unfolding pre by (rule diff_step_last)
  also have "\<dots> = map (forward_difference ts) (filter (forward_pair ts) [0..<EVENT_SIZ])"
    by (simp only: upt_EVENT_SIZ [symmetric])
  finally show ?thesis .
qed

lemma collect_differences_positive: "\<forall>d\<in>set (collect_differences ts). 0 < d"
  by (auto simp: collect_differences_eq forward_pair_def forward_difference_def)

lemma collect_differences_length: "length (collect_differences ts) \<le> EVENT_SIZ - 1"
proof -
  have "length (filter (forward_pair ts) ([0..<EVENT_SIZ - 1] @ [EVENT_SIZ - 1])) \<le> EVENT_SIZ - 1"
  proof (cases "forward_pair ts (EVENT_SIZ - 1)")
    case True
    then have "\<not> (\<forall>i<EVENT_SIZ - 1. forward_pair ts i)"
      using no_full_cycle by blast
    then obtain i where "i \<in> set [0..<EVENT_SIZ - 1]" "\<not> forward_pair ts i"
      by auto
    then have "length (filter (forward_pair ts) [0..<EVENT_SIZ - 1]) < length [0..<EVENT_SIZ - 1]"
      by (rule length_filter_less)
    with True show ?thesis by simp
  next
    case False
    then show ?thesis
      using length_filter_le [of "forward_pair ts" "[0..<EVENT_SIZ - 1]"] by simp
  qed
  then show ?thesis
    by (simp only: collect_differences_eq length_map upt_EVENT_SIZ [symmetric])
qed


subsection \<open>The entry the estimator reads\<close>

lemma upt_0_32:
  "[0..<32] = [0, 1, 2, 3, 4, 5, 6, 7, 8, 9, 10, 11, 12, 13, 14, 15, 16, 17, 18, 19, 20, 21,
     22, 23, 24, 25, 26, 27, 28, 29, 30, 31]"
  by code_simp

lemma uneven_differences:
  "collect_differences uneven_window =
     [1000, 1000, 1000, 1000, 1000, 1000, 1000, 1000, 1000, 1000, 1000, 1000, 1000, 1000, 1000,
      1000, 2000, 2000, 2000, 2000, 2000, 2000, 2000, 2000, 2000, 2000, 2000, 2000, 2000, 2000,
      2000]"
  by (simp add: collect_differences_def diff_step_def uneven_window_def EVENT_SIZ_def Let_def
      upt_0_32)

text \<open>
  C1. For every window of 32 timestamps the estimator collects the forward differences of
  the ring where the next timestamp is strictly greater (\<open>collect_differences_eq\<close>), sorts
  them, and is claimed to return 1,000,000 divided by their median. On \<open>uneven_window\<close>
  the 31 differences are sixteen times 1000 and fifteen times 2000: their median is 1000,
  which the claim turns into 1000 Hz. The estimator reads entry \<open>EVENT_SIZ / 2 = 16\<close> of
  the sorted array, one above the middle entry 15, and returns 500.
\<close>

theorem get_frequency_reads_above_median:
  "length uneven_window = EVENT_SIZ \<and>
   length (collect_differences uneven_window) = 31 \<and>
   1000000 / median (collect_differences uneven_window) = 1000 \<and>
   get_frequency uneven_window = Some 500"
proof (intro conjI)
  show "length uneven_window = EVENT_SIZ"
    by (simp add: uneven_window_def EVENT_SIZ_def)
  show "length (collect_differences uneven_window) = 31"
    by (simp add: uneven_differences)
  show "1000000 / median (collect_differences uneven_window) = 1000"
    by (simp add: median_def uneven_differences Let_def)
  show "get_frequency uneven_window = Some 500"
    by (simp add: get_frequency_def uneven_differences EVENT_SIZ_def Let_def)
qed

subsection \<open>Evenly spaced timestamps\<close>

lemma collect_differences_constant:
  assumes pos: "0 < \<Delta>"
    and spacing: "\<forall>i. Suc i < EVENT_SIZ \<longrightarrow> ts ! Suc i - ts ! i = \<Delta>"
  shows "collect_differences ts = replicate (EVENT_SIZ - 1) \<Delta>"
proof -
  have step: "ts ! ((i + 1) mod EVENT_SIZ) - ts ! i = \<Delta>" if "i < EVENT_SIZ - 1" for i
  proof -
    from that have "Suc i < EVENT_SIZ" by simp
    then have "(i + 1) mod EVENT_SIZ = Suc i" by simp
    with spacing \<open>Suc i < EVENT_SIZ\<close> show ?thesis by simp
  qed
  have fwd: "\<forall>i<EVENT_SIZ - 1. forward_pair ts i"
  proof (intro allI impI)
    fix i assume "i < EVENT_SIZ - 1"
    from step [OF this] pos show "forward_pair ts i"
      unfolding forward_pair_def by linarith
  qed
  then have last: "\<not> forward_pair ts (EVENT_SIZ - 1)" by (rule no_full_cycle)
  from fwd have "filter (forward_pair ts) [0..<EVENT_SIZ - 1] = [0..<EVENT_SIZ - 1]"
    by (simp add: filter_id_conv)
  with last
  have "filter (forward_pair ts) ([0..<EVENT_SIZ - 1] @ [EVENT_SIZ - 1]) = [0..<EVENT_SIZ - 1]"
    by simp
  then have "filter (forward_pair ts) [0..<EVENT_SIZ] = [0..<EVENT_SIZ - 1]"
    by (simp only: upt_EVENT_SIZ [symmetric])
  then have "collect_differences ts = map (forward_difference ts) [0..<EVENT_SIZ - 1]"
    by (simp only: collect_differences_eq)
  also have "\<dots> = map (\<lambda>_. \<Delta>) [0..<EVENT_SIZ - 1]"
  proof (rule map_cong [OF refl])
    fix i assume "i \<in> set [0..<EVENT_SIZ - 1]"
    then have "i < EVENT_SIZ - 1" by simp
    from step [OF this] show "forward_difference ts i = \<Delta>"
      unfolding forward_difference_def .
  qed
  also have "\<dots> = replicate (EVENT_SIZ - 1) \<Delta>"
    by (simp add: map_replicate_const)
  finally show ?thesis .
qed

text \<open>
  C2. For every array of 32 strictly increasing timestamps whose consecutive entries are
  a constant \<open>\<Delta>\<close> microseconds apart, the estimator returns \<open>1000000 / \<Delta>\<close>, the event
  rate in Hz. The quotient is the exact one; the C function returns the double nearest
  to it.
\<close>

theorem get_frequency_constant_spacing:
  assumes "length ts = EVENT_SIZ" and "0 < \<Delta>"
    and "\<forall>i. Suc i < EVENT_SIZ \<longrightarrow> ts ! Suc i - ts ! i = \<Delta>"
  shows "get_frequency ts = Some (1000000 / \<Delta>)"
proof -
  have "collect_differences ts = replicate (EVENT_SIZ - 1) \<Delta>"
    using assms(2,3) by (rule collect_differences_constant)
  moreover have "sort (replicate (EVENT_SIZ - 1) \<Delta>) = replicate (EVENT_SIZ - 1) \<Delta>"
    by (simp add: sorted_sort_id)
  ultimately show ?thesis
    by (simp add: get_frequency_def Let_def EVENT_SIZ_def)
qed

theorem get_frequency_constant_spacing_witness:
  "length even_window = EVENT_SIZ \<and> get_frequency even_window = Some 125"
  using get_frequency_constant_spacing [of even_window 8000]
  by (simp add: even_window_def EVENT_SIZ_def)


subsection \<open>Entries that were never written\<close>

lemma collect_differences_increasing:
  assumes "\<forall>i. Suc i < EVENT_SIZ \<longrightarrow> ts ! i < ts ! Suc i"
  shows "length (collect_differences ts) = EVENT_SIZ - 1"
proof -
  have fwd: "\<forall>i<EVENT_SIZ - 1. forward_pair ts i"
  proof (intro allI impI)
    fix i assume "i < EVENT_SIZ - 1"
    then have "Suc i < EVENT_SIZ" by simp
    moreover from this have "(i + 1) mod EVENT_SIZ = Suc i" by simp
    ultimately show "forward_pair ts i"
      using assms by (simp add: forward_pair_def)
  qed
  then have last: "\<not> forward_pair ts (EVENT_SIZ - 1)" by (rule no_full_cycle)
  from fwd have "filter (forward_pair ts) [0..<EVENT_SIZ - 1] = [0..<EVENT_SIZ - 1]"
    by (simp add: filter_id_conv)
  with last
  have "filter (forward_pair ts) ([0..<EVENT_SIZ - 1] @ [EVENT_SIZ - 1]) = [0..<EVENT_SIZ - 1]"
    by simp
  then have "filter (forward_pair ts) [0..<EVENT_SIZ] = [0..<EVENT_SIZ - 1]"
    by (simp only: upt_EVENT_SIZ [symmetric])
  then show ?thesis
    by (simp add: collect_differences_eq)
qed

lemma collect_differences_equal: "collect_differences (replicate EVENT_SIZ t) = []"
proof -
  have "\<not> forward_pair (replicate EVENT_SIZ t) i" if "i < EVENT_SIZ" for i
    using that by (simp add: forward_pair_def EVENT_SIZ_def)
  then have "filter (forward_pair (replicate EVENT_SIZ t)) [0..<EVENT_SIZ] = []"
    by (simp add: filter_empty_conv)
  then show ?thesis
    by (simp add: collect_differences_eq)
qed

text \<open>
  C9. On an array of 32 equal timestamps no forward difference exists, nothing is written
  to \<open>differences\<close>, and the function still reads entry 16 and divides by it: the result
  comes from a value that was never initialised (\<open>None\<close>). When the 32 timestamps are
  strictly increasing, 31 differences are written and entry 16 is one of them.
\<close>

theorem uninitialised_read:
  "collect_differences (replicate EVENT_SIZ t) = [] \<and>
   get_frequency (replicate EVENT_SIZ t) = None \<and>
   (length ts = EVENT_SIZ \<and> (\<forall>i. Suc i < EVENT_SIZ \<longrightarrow> ts ! i < ts ! Suc i) \<longrightarrow>
      length (collect_differences ts) = 31 \<and>
      get_frequency ts = Some (1000000 / sort (collect_differences ts) ! 16))"
proof (intro conjI impI)
  show "collect_differences (replicate EVENT_SIZ t) = []"
    by (rule collect_differences_equal)
  then show "get_frequency (replicate EVENT_SIZ t) = None"
    by (simp add: get_frequency_def EVENT_SIZ_def)
next
  assume "length ts = EVENT_SIZ \<and> (\<forall>i. Suc i < EVENT_SIZ \<longrightarrow> ts ! i < ts ! Suc i)"
  then have len: "length (collect_differences ts) = EVENT_SIZ - 1"
    using collect_differences_increasing by blast
  then show "length (collect_differences ts) = 31"
    by (simp add: EVENT_SIZ_def)
  from len show "get_frequency ts = Some (1000000 / sort (collect_differences ts) ! 16)"
    by (simp add: get_frequency_def EVENT_SIZ_def Let_def)
qed

theorem uninitialised_read_witness:
  "get_frequency (replicate EVENT_SIZ 7) = None \<and>
   length even_window = EVENT_SIZ \<and> length (collect_differences even_window) = 31 \<and>
   get_frequency even_window = Some (1000000 / sort (collect_differences even_window) ! 16)"
  using uninitialised_read [of 7 even_window]
  by (simp add: even_window_def EVENT_SIZ_def)

section \<open>The mouse tool's event handler\<close>

subsection \<open>The ring stays well-formed\<close>

lemma wellformed_initial: "wellformed mouse_initial"
  by (simp add: wellformed_def mouse_initial_def EVENT_SIZ_def)

lemma wellformed_handle_event: "wellformed m \<Longrightarrow> wellformed (handle_event_mouse m ev)"
  by (auto simp: wellformed_def handle_event_mouse_def Let_def print_current_values_mouse_def
      EVENT_SIZ_def)

lemma wellformed_run: "wellformed (run_mouse evs)"
proof -
  have "wellformed m \<Longrightarrow> wellformed (foldl handle_event_mouse m evs)" for m
    by (induction evs arbitrary: m) (simp_all add: wellformed_handle_event)
  then show ?thesis
    by (simp add: run_mouse_def wellformed_initial)
qed

subsection \<open>The idle reset\<close>

text \<open>
  As long as the unsigned sum does not wrap, the test \<open>last_us + idle_reset < m->us\<close> says
  that the gap is strictly greater than 3,000,000 microseconds.
\<close>

lemma reset_condition:
  assumes "uint (us m) + 3000000 < 2 ^ 64"
  shows "(us m + idle_reset < tv2us (time ev)) = (3000000 < gap_us m ev)"
proof -
  have "uint (us m + idle_reset) = uint (us m) + 3000000"
    using assms by (simp add: idle_reset_def uint_word_ariths uint_plus_if_size word_size)
  then show ?thesis
    unfolding word_less_def gap_us_def by linarith
qed

text \<open>
  C3, as stated: a gap of at least 3,000,000 microseconds between two consecutive
  synchronization events resets the distance. The event \<open>syn_at 4 0\<close> arrives exactly
  3,000,000 microseconds after the one recorded in \<open>paused_state\<close>, and the distance
  stays 5.
\<close>

theorem idle_gap_of_exactly_three_seconds:
  "type (syn_at 4 0) = EV_SYN \<and> 3000000 \<le> gap_us paused_state (syn_at 4 0) \<and>
   distance (handle_event_mouse paused_state (syn_at 4 0)) \<noteq> 0"
  by (simp add: handle_event_mouse_def paused_state_def syn_at_def gap_us_def tv2us_def
      idle_reset_def mouse_initial_def Let_def print_current_values_mouse_def EV_SYN_def
      EVENT_SIZ_def)

text \<open>
  C3, amended. For consecutive synchronization events (the earlier timestamp below
  \<open>2^64 - 3000000\<close>, so that the unsigned sum does not wrap): if the gap is strictly
  greater than 3,000,000 microseconds, \<open>handle_event\<close> sets the distance to 0, the peak
  frequency to 0.0, the window index to 0 and clears the valid flag. Otherwise none of
  these resets occurs: the distance is unchanged, the index advances by one and returns
  to 0 only when it reaches \<open>EVENT_SIZ\<close>, the valid flag is kept or set, and the
  frequency is kept or raised to the estimate of the window.
\<close>

theorem idle_reset_strict:
  assumes "type ev = EV_SYN" and "uint (us m) + 3000000 < 2 ^ 64"
  shows "(3000000 < gap_us m ev \<longrightarrow>
            distance (handle_event_mouse m ev) = 0 \<and>
            frequency (handle_event_mouse m ev) = Some 0 \<and>
            event_times_index (handle_event_mouse m ev) = 0 \<and>
            \<not> event_list_valid (handle_event_mouse m ev)) \<and>
         (gap_us m ev \<le> 3000000 \<longrightarrow>
            distance (handle_event_mouse m ev) = distance m \<and>
            event_times_index (handle_event_mouse m ev) =
              (if event_times_index m + 1 = EVENT_SIZ then 0 else event_times_index m + 1) \<and>
            event_list_valid (handle_event_mouse m ev) =
              (event_list_valid m \<or> event_times_index m + 1 = EVENT_SIZ) \<and>
            frequency (handle_event_mouse m ev) =
              (if event_list_valid (handle_event_mouse m ev)
               then max_double (get_frequency (event_times (handle_event_mouse m ev)))
                      (frequency m)
               else frequency m))"
  using assms(1) reset_condition [OF assms(2), of ev]
  by (simp add: handle_event_mouse_def Let_def print_current_values_mouse_def)

theorem idle_reset_strict_witness:
  "distance (handle_event_mouse paused_state (syn_at 5 0)) = 0 \<and>
   frequency (handle_event_mouse paused_state (syn_at 5 0)) = Some 0 \<and>
   event_times_index (handle_event_mouse paused_state (syn_at 5 0)) = 0 \<and>
   \<not> event_list_valid (handle_event_mouse paused_state (syn_at 5 0)) \<and>
   distance (handle_event_mouse paused_state (syn_at 4 0)) = 5 \<and>
   event_times_index (handle_event_mouse paused_state (syn_at 4 0)) = 1 \<and>
   \<not> event_list_valid (handle_event_mouse paused_state (syn_at 4 0)) \<and>
   frequency (handle_event_mouse paused_state (syn_at 4 0)) = Some 0"
  using idle_reset_strict [of "syn_at 5 0" paused_state]
    idle_reset_strict [of "syn_at 4 0" paused_state]
  by (simp add: paused_state_def syn_at_def gap_us_def tv2us_def mouse_initial_def
      EVENT_SIZ_def)

subsection \<open>The first synchronization event of a session\<close>

lemma foldl_before_first_syn:
  assumes "\<forall>ev\<in>set evs. type ev \<noteq> EV_SYN"
  shows "us (foldl handle_event_mouse m evs) = us m \<and>
         event_times (foldl handle_event_mouse m evs) = event_times m \<and>
         event_times_index (foldl handle_event_mouse m evs) = event_times_index m \<and>
         event_list_valid (foldl handle_event_mouse m evs) = event_list_valid m \<and>
         output_mouse (foldl handle_event_mouse m evs) = output_mouse m"
  using assms
proof (induction evs arbitrary: m)
  case Nil
  then show ?case by simp
next
  case (Cons ev evs)
  then have "type ev \<noteq> EV_SYN" by simp
  then have "us (handle_event_mouse m ev) = us m \<and>
         event_times (handle_event_mouse m ev) = event_times m \<and>
         event_times_index (handle_event_mouse m ev) = event_times_index m \<and>
         event_list_valid (handle_event_mouse m ev) = event_list_valid m \<and>
         output_mouse (handle_event_mouse m ev) = output_mouse m"
    by (simp add: handle_event_mouse_def)
  with Cons show ?case by simp
qed

text \<open>
  C10. \<open>main\<close> starts the session with \<open>us = 0\<close>. The first synchronization event of the
  session, when its timestamp exceeds 3,000,000 microseconds, meets the reset condition
  whatever events came before it: its timestamp is not written into the window, the
  window stays invalid, and no progress line is printed.
\<close>

theorem first_sync_takes_reset:
  assumes "\<forall>e\<in>set before. type e \<noteq> EV_SYN" and "type ev = EV_SYN"
    and "3000000 < uint (tv2us (time ev))"
  shows "us (foldl handle_event_mouse mouse_initial before) + idle_reset < tv2us (time ev) \<and>
         event_times (run_mouse (before @ [ev])) = replicate EVENT_SIZ 0 \<and>
         event_times_index (run_mouse (before @ [ev])) = 0 \<and>
         \<not> event_list_valid (run_mouse (before @ [ev])) \<and>
         output_mouse (run_mouse (before @ [ev])) = [] \<and>
         distance (run_mouse (before @ [ev])) = 0 \<and>
         frequency (run_mouse (before @ [ev])) = Some 0"
proof -
  let ?m = "foldl handle_event_mouse mouse_initial before"
  from foldl_before_first_syn [OF assms(1), of mouse_initial]
  have pre: "us ?m = 0" "event_times ?m = replicate EVENT_SIZ 0" "output_mouse ?m = []"
    by (simp_all add: mouse_initial_def)
  have cond: "us ?m + idle_reset < tv2us (time ev)"
    using assms(3) by (simp add: pre idle_reset_def word_less_def)
  with assms(2) pre show ?thesis
    by (simp add: run_mouse_def handle_event_mouse_def Let_def)
qed

theorem first_sync_takes_reset_witness:
  "event_times (run_mouse ([rel_x 7] @ [syn_at 10 0])) = replicate EVENT_SIZ 0 \<and>
   \<not> event_list_valid (run_mouse ([rel_x 7] @ [syn_at 10 0])) \<and>
   output_mouse (run_mouse ([rel_x 7] @ [syn_at 10 0])) = []"
  using first_sync_takes_reset [of "[rel_x 7]" "syn_at 10 0"]
  by (simp add: rel_x_def syn_at_def EV_SYN_def EV_REL_def tv2us_def)


subsection \<open>The accumulated distance\<close>

lemma handle_event_mouse_us:
  "us (handle_event_mouse m ev) = (if type ev = EV_SYN then tv2us (time ev) else us m)"
  by (simp add: handle_event_mouse_def Let_def print_current_values_mouse_def)

lemma handle_event_mouse_distance:
  "distance (handle_event_mouse m ev) =
     (if type ev = EV_SYN then (if us m + idle_reset < tv2us (time ev) then 0 else distance m)
      else if is_rel_x ev then distance m + value ev
      else distance m)"
  by (simp add: handle_event_mouse_def Let_def print_current_values_mouse_def is_rel_x_def)

lemma syn_not_rel_x: "type ev = EV_SYN \<Longrightarrow> \<not> is_rel_x ev"
  by (simp add: is_rel_x_def EV_SYN_def EV_REL_def)

lemma rel_x_values_snoc:
  "rel_x_values (acc @ [ev]) =
     (if is_rel_x ev then rel_x_values acc @ [value ev] else rel_x_values acc)"
  by (simp add: rel_x_values_def)

lemma distance_foldl:
  "distance m = sum_list (rel_x_values acc) \<Longrightarrow>
   distance (foldl handle_event_mouse m evs) =
     sum_list (rel_x_values (events_since_reset (us m) acc evs))"
proof (induction evs arbitrary: m acc)
  case Nil
  then show ?case by simp
next
  case (Cons ev evs)
  show ?case
  proof (cases "type ev = EV_SYN")
    case True
    show ?thesis
    proof (cases "us m + idle_reset < tv2us (time ev)")
      case reset: True
      have "distance (handle_event_mouse m ev) = sum_list (rel_x_values [])"
        using True reset by (simp add: handle_event_mouse_distance rel_x_values_def)
      from Cons.IH [OF this] show ?thesis
        using True reset by (simp add: handle_event_mouse_us)
    next
      case False
      have "distance (handle_event_mouse m ev) = sum_list (rel_x_values (acc @ [ev]))"
        using True False Cons.prems
        by (simp add: handle_event_mouse_distance rel_x_values_snoc syn_not_rel_x)
      from Cons.IH [OF this] show ?thesis
        using True False by (simp add: handle_event_mouse_us)
    qed
  next
    case False
    have "distance (handle_event_mouse m ev) = sum_list (rel_x_values (acc @ [ev]))"
      using False Cons.prems
      by (simp add: handle_event_mouse_distance rel_x_values_snoc)
    from Cons.IH [OF this] show ?thesis
      using False by (simp add: handle_event_mouse_us)
  qed
qed

lemma sint_sum_list:
  "sint (sum_list ws :: 32 word) = signed_take_bit 31 (sum_list (map sint ws))"
proof (induction ws)
  case Nil
  then show ?case by simp
next
  case (Cons w ws)
  have "sint (w + sum_list ws) = signed_take_bit 31 (sint w + sint (sum_list ws))"
    by (simp add: sint_word_ariths)
  also have "\<dots> = signed_take_bit 31 (sint w + signed_take_bit 31 (sum_list (map sint ws)))"
    by (simp only: Cons.IH)
  also have "\<dots> = signed_take_bit 31 (signed_take_bit 31 (sint w)
      + signed_take_bit 31 (signed_take_bit 31 (sum_list (map sint ws))))"
    by (rule signed_take_bit_add [symmetric])
  also have "\<dots> = signed_take_bit 31 (signed_take_bit 31 (sint w)
      + signed_take_bit 31 (sum_list (map sint ws)))"
    by simp
  also have "\<dots> = signed_take_bit 31 (sint w + sum_list (map sint ws))"
    by (rule signed_take_bit_add)
  finally show ?case by simp
qed

lemma sint_sum_list_in_range:
  assumes "- (2 ^ 31) \<le> signed_sum ws" "signed_sum ws < 2 ^ 31"
  shows "sint (sum_list ws :: 32 word) = signed_sum ws"
  using assms unfolding sint_sum_list signed_sum_def
  by (simp add: signed_take_bit_int_eq_self)

lemma sint_abs_int:
  assumes "- (2 ^ 31) < sint x"
  shows "sint (abs_int x) = \<bar>sint x\<bar>"
proof (cases "sint x < 0")
  case True
  have "sint (- x) = signed_take_bit 31 (- sint x)"
    by (simp add: sint_word_ariths)
  also have "\<dots> = - sint x"
    using assms True by (intro signed_take_bit_int_eq_self) simp_all
  finally show ?thesis using True by (simp add: abs_int_def)
next
  case False
  then show ?thesis by (simp add: abs_int_def)
qed

text \<open>
  C4, as stated: for every sequence of events the distance field equals the signed sum of
  the \<open>REL_X\<close> values handled since the most recent idle reset, and the final summary
  prints the absolute value of that sum. The values of \<open>past_int_max\<close> add up to
  2147483648 and the field holds -2147483648; the one value of \<open>at_int_min\<close> is
  -2147483648 and the summary prints -2147483648, which is not its absolute value.
\<close>

theorem distance_leaves_int_range:
  "signed_sum (rel_x_values (events_since_reset 0 [] past_int_max)) = 2147483648 \<and>
   sint (distance (run_mouse past_int_max)) = - 2147483648 \<and>
   signed_sum (rel_x_values (events_since_reset 0 [] at_int_min)) = - 2147483648 \<and>
   sint (distance (print_summary (run_mouse at_int_min))) = - 2147483648"
  by (simp add: past_int_max_def at_int_min_def rel_x_def rel_x_values_def is_rel_x_def
      signed_sum_def run_mouse_def handle_event_mouse_def mouse_initial_def print_summary_def
      abs_int_def INT_MAX_def INT_MIN_def EV_SYN_def EV_REL_def REL_X_def)

text \<open>
  C4, amended. For every sequence of events the mouse tool handles from its start, the
  distance field equals, in the 32-bit arithmetic of C's \<open>int\<close>, the sum of the values of
  the \<open>EV_REL\<close>/\<open>REL_X\<close> events handled since the most recent idle reset (of all of
  them when there was none), and \<open>print_summary\<close> prints the result of \<open>abs\<close> on it.
  Whenever the signed sum of those values lies strictly between \<open>-2^31\<close> and \<open>2^31\<close>,
  the field is that sum and the printed distance is its absolute value.
\<close>

theorem distance_is_signed_sum:
  "distance (run_mouse evs) = sum_list (rel_x_values (events_since_reset 0 [] evs)) \<and>
   distance (print_summary (run_mouse evs)) =
     abs_int (sum_list (rel_x_values (events_since_reset 0 [] evs))) \<and>
   (- (2 ^ 31) < signed_sum (rel_x_values (events_since_reset 0 [] evs)) \<and>
    signed_sum (rel_x_values (events_since_reset 0 [] evs)) < 2 ^ 31 \<longrightarrow>
      sint (distance (run_mouse evs)) = signed_sum (rel_x_values (events_since_reset 0 [] evs)) \<and>
      sint (distance (print_summary (run_mouse evs))) =
        \<bar>signed_sum (rel_x_values (events_since_reset 0 [] evs))\<bar>)"
proof -
  let ?vs = "rel_x_values (events_since_reset 0 [] evs)"
  have "distance mouse_initial = sum_list (rel_x_values [])"
    by (simp add: mouse_initial_def rel_x_values_def)
  from distance_foldl [OF this, of evs]
  have d: "distance (run_mouse evs) = sum_list ?vs"
    by (simp add: run_mouse_def mouse_initial_def)
  then have p: "distance (print_summary (run_mouse evs)) = abs_int (sum_list ?vs)"
    by (simp add: print_summary_def)
  have "sint (distance (run_mouse evs)) = signed_sum ?vs \<and>
        sint (distance (print_summary (run_mouse evs))) = \<bar>signed_sum ?vs\<bar>"
    if range: "- (2 ^ 31) < signed_sum ?vs" "signed_sum ?vs < 2 ^ 31"
  proof -
    have s: "sint (sum_list ?vs) = signed_sum ?vs"
      using range by (intro sint_sum_list_in_range) simp_all
    with range have "sint (abs_int (sum_list ?vs)) = \<bar>signed_sum ?vs\<bar>"
      using sint_abs_int [of "sum_list ?vs"] by simp
    with s d p show ?thesis by simp
  qed
  with d p show ?thesis by blast
qed

theorem distance_is_signed_sum_witness:
  "signed_sum (rel_x_values (events_since_reset 0 [] back_and_forth)) = - 7 \<and>
   sint (distance (run_mouse back_and_forth)) = - 7 \<and>
   sint (distance (print_summary (run_mouse back_and_forth))) = 7"
  using distance_is_signed_sum [of back_and_forth]
  by (simp add: back_and_forth_def rel_x_def syn_at_def rel_x_values_def is_rel_x_def
      signed_sum_def tv2us_def idle_reset_def EV_SYN_def EV_REL_def REL_X_def abs_int_def)


section \<open>The touchpad tool's event handler\<close>

lemma sint_min_int: "sint (min_int a b) = min (sint a) (sint b)"
  by (simp add: min_int_def min_def)

lemma sint_max_int: "sint (max_int a b) = max (sint a) (sint b)"
  by (simp add: max_int_def max_def)

lemma handle_event_touchpad_left:
  "sint (left (handle_event_touchpad d ev)) =
     (if is_abs_x ev then min (sint (left d)) (sint (value ev)) else sint (left d))"
  by (auto simp: handle_event_touchpad_def print_current_values_touchpad_def is_abs_x_def
      sint_min_int EV_SYN_def EV_ABS_def ABS_X_def ABS_Y_def ABS_MT_POSITION_X_def
      ABS_MT_POSITION_Y_def)

lemma handle_event_touchpad_right:
  "sint (right (handle_event_touchpad d ev)) =
     (if is_abs_x ev then max (sint (right d)) (sint (value ev)) else sint (right d))"
  by (auto simp: handle_event_touchpad_def print_current_values_touchpad_def is_abs_x_def
      sint_max_int EV_SYN_def EV_ABS_def ABS_X_def ABS_Y_def ABS_MT_POSITION_X_def
      ABS_MT_POSITION_Y_def)

lemma handle_event_touchpad_top:
  "sint (top' (handle_event_touchpad d ev)) =
     (if is_abs_y ev then min (sint (top' d)) (sint (value ev)) else sint (top' d))"
  by (auto simp: handle_event_touchpad_def print_current_values_touchpad_def is_abs_y_def
      sint_min_int EV_SYN_def EV_ABS_def ABS_X_def ABS_Y_def ABS_MT_POSITION_X_def
      ABS_MT_POSITION_Y_def)

lemma handle_event_touchpad_bottom:
  "sint (bottom (handle_event_touchpad d ev)) =
     (if is_abs_y ev then max (sint (bottom d)) (sint (value ev)) else sint (bottom d))"
  by (auto simp: handle_event_touchpad_def print_current_values_touchpad_def is_abs_y_def
      sint_max_int EV_SYN_def EV_ABS_def ABS_X_def ABS_Y_def ABS_MT_POSITION_X_def
      ABS_MT_POSITION_Y_def)

text \<open>
  A field that each event either leaves alone or lowers to the event's value holds, after
  a run, the least of its initial content and the values of the events that lowered it;
  likewise for a field that is raised.
\<close>

lemma foldl_tracks_Min:
  fixes g :: "'s \<Rightarrow> int"
  assumes "\<And>d ev. g (h d ev) = (if P ev then min (g d) (v ev) else g d)"
  shows "g (foldl h d evs) = Min (insert (g d) (set (map v (filter P evs))))"
proof (induction evs arbitrary: d)
  case Nil
  then show ?case by simp
next
  case (Cons ev evs)
  let ?S = "set (map v (filter P evs))"
  show ?case
  proof (cases "P ev")
    case True
    have "Min (insert (min (g d) (v ev)) ?S) = Min (insert (g d) (insert (v ev) ?S))"
      by (cases "?S = {}") (simp_all add: min.assoc)
    with True show ?thesis
      by (simp add: Cons.IH assms)
  next
    case False
    then show ?thesis
      by (simp add: Cons.IH assms)
  qed
qed

lemma foldl_tracks_Max:
  fixes g :: "'s \<Rightarrow> int"
  assumes "\<And>d ev. g (h d ev) = (if P ev then max (g d) (v ev) else g d)"
  shows "g (foldl h d evs) = Max (insert (g d) (set (map v (filter P evs))))"
proof (induction evs arbitrary: d)
  case Nil
  then show ?case by simp
next
  case (Cons ev evs)
  let ?S = "set (map v (filter P evs))"
  show ?case
  proof (cases "P ev")
    case True
    have "Max (insert (max (g d) (v ev)) ?S) = Max (insert (g d) (insert (v ev) ?S))"
      by (cases "?S = {}") (simp_all add: max.assoc)
    with True show ?thesis
      by (simp add: Cons.IH assms)
  next
    case False
    then show ?thesis
      by (simp add: Cons.IH assms)
  qed
qed

lemma Min_insert_upper:
  fixes m :: int
  assumes "finite S" "S \<noteq> {}" "\<forall>x\<in>S. x \<le> m"
  shows "Min (insert m S) = Min S"
proof -
  have "Min S \<in> S" using assms(1,2) by (rule Min_in)
  with assms(3) have "Min S \<le> m" by blast
  then show ?thesis using assms(1,2) by (simp add: min_absorb2)
qed

lemma Max_insert_lower:
  fixes m :: int
  assumes "finite S" "S \<noteq> {}" "\<forall>x\<in>S. m \<le> x"
  shows "Max (insert m S) = Max S"
proof -
  have "Max S \<in> S" using assms(1,2) by (rule Max_in)
  with assms(3) have "m \<le> Max S" by blast
  then show ?thesis using assms(1,2) by (simp add: max_absorb2)
qed

lemma Min_below_Max:
  fixes S :: "int set"
  assumes "finite S" "S \<noteq> {}"
  shows "Min S \<le> Max S"
proof -
  have "Max S \<in> S" using assms by (rule Max_in)
  with assms(1) show ?thesis by (rule Min_le)
qed

lemma sint_INT_MAX: "sint INT_MAX = 2147483647"
  by (simp add: INT_MAX_def)

lemma sint_INT_MIN: "sint INT_MIN = - 2147483648"
  by (simp add: INT_MIN_def)

lemma sint_le_INT_MAX: "sint (w :: 32 word) \<le> sint INT_MAX"
  using sint_lt [of w] by (simp add: sint_INT_MAX)

lemma sint_ge_INT_MIN: "sint INT_MIN \<le> sint (w :: 32 word)"
  using sint_ge [of w] by (simp add: sint_INT_MIN)

lemma x_values_bounded: "\<forall>x\<in>set (x_values evs). sint INT_MIN \<le> x \<and> x \<le> sint INT_MAX"
  by (auto simp: x_values_def sint_le_INT_MAX sint_ge_INT_MIN)

lemma y_values_bounded: "\<forall>y\<in>set (y_values evs). sint INT_MIN \<le> y \<and> y \<le> sint INT_MAX"
  by (auto simp: y_values_def sint_le_INT_MAX sint_ge_INT_MIN)

lemma run_touchpad_left:
  "sint (left (run_touchpad evs)) = Min (insert (sint INT_MAX) (set (x_values evs)))"
  unfolding run_touchpad_def x_values_def
  using foldl_tracks_Min [of "\<lambda>d. sint (left d)" handle_event_touchpad is_abs_x
      "\<lambda>ev. sint (value ev)" touchpad_initial evs]
  by (simp add: handle_event_touchpad_left touchpad_initial_def)

lemma run_touchpad_right:
  "sint (right (run_touchpad evs)) = Max (insert (sint INT_MIN) (set (x_values evs)))"
  unfolding run_touchpad_def x_values_def
  using foldl_tracks_Max [of "\<lambda>d. sint (right d)" handle_event_touchpad is_abs_x
      "\<lambda>ev. sint (value ev)" touchpad_initial evs]
  by (simp add: handle_event_touchpad_right touchpad_initial_def)

lemma run_touchpad_top:
  "sint (top' (run_touchpad evs)) = Min (insert (sint INT_MAX) (set (y_values evs)))"
  unfolding run_touchpad_def y_values_def
  using foldl_tracks_Min [of "\<lambda>d. sint (top' d)" handle_event_touchpad is_abs_y
      "\<lambda>ev. sint (value ev)" touchpad_initial evs]
  by (simp add: handle_event_touchpad_top touchpad_initial_def)

lemma run_touchpad_bottom:
  "sint (bottom (run_touchpad evs)) = Max (insert (sint INT_MIN) (set (y_values evs)))"
  unfolding run_touchpad_def y_values_def
  using foldl_tracks_Max [of "\<lambda>d. sint (bottom d)" handle_event_touchpad is_abs_y
      "\<lambda>ev. sint (value ev)" touchpad_initial evs]
  by (simp add: handle_event_touchpad_bottom touchpad_initial_def)

text \<open>
  C5, as stated: once any event has been observed, \<open>left \<le> right\<close> and \<open>top \<le> bottom\<close>.
  After a single \<open>ABS_X\<close> event the vertical bounds are still the initial \<open>INT_MAX\<close> and
  \<open>INT_MIN\<close>, and \<open>bottom < top\<close>.
\<close>

theorem bounds_after_one_x_event:
  "sint (bottom (run_touchpad [abs_event ABS_X 5])) < sint (top' (run_touchpad [abs_event ABS_X 5]))"
  by (simp add: run_touchpad_def handle_event_touchpad_def abs_event_def touchpad_initial_def
      EV_SYN_def EV_ABS_def ABS_X_def INT_MAX_def INT_MIN_def min_int_def max_int_def)

text \<open>
  C5, amended. For every sequence of events handled from the initial dimensions: once an
  \<open>EV_ABS\<close> event with code \<open>ABS_X\<close> or \<open>ABS_MT_POSITION_X\<close> has been observed,
  \<open>left \<le> right\<close> and the two are the minimum and the maximum of the values of all such
  events; once one with code \<open>ABS_Y\<close> or \<open>ABS_MT_POSITION_Y\<close> has been observed,
  \<open>top \<le> bottom\<close> and the two are the minimum and the maximum of the values of all
  such events. An axis without any event keeps \<open>INT_MAX\<close> and \<open>INT_MIN\<close>.
\<close>

theorem touchpad_bounds:
  "(x_values evs \<noteq> [] \<longrightarrow>
      sint (left (run_touchpad evs)) = Min (set (x_values evs)) \<and>
      sint (right (run_touchpad evs)) = Max (set (x_values evs)) \<and>
      sint (left (run_touchpad evs)) \<le> sint (right (run_touchpad evs))) \<and>
   (y_values evs \<noteq> [] \<longrightarrow>
      sint (top' (run_touchpad evs)) = Min (set (y_values evs)) \<and>
      sint (bottom (run_touchpad evs)) = Max (set (y_values evs)) \<and>
      sint (top' (run_touchpad evs)) \<le> sint (bottom (run_touchpad evs))) \<and>
   (x_values evs = [] \<longrightarrow>
      left (run_touchpad evs) = INT_MAX \<and> right (run_touchpad evs) = INT_MIN) \<and>
   (y_values evs = [] \<longrightarrow>
      top' (run_touchpad evs) = INT_MAX \<and> bottom (run_touchpad evs) = INT_MIN)"
proof (intro conjI impI)
  assume ne: "x_values evs \<noteq> []"
  then have S: "finite (set (x_values evs))" "set (x_values evs) \<noteq> {}" by simp_all
  show l: "sint (left (run_touchpad evs)) = Min (set (x_values evs))"
    unfolding run_touchpad_left using S x_values_bounded [of evs]
    by (intro Min_insert_upper) auto
  show r: "sint (right (run_touchpad evs)) = Max (set (x_values evs))"
    unfolding run_touchpad_right using S x_values_bounded [of evs]
    by (intro Max_insert_lower) auto
  show "sint (left (run_touchpad evs)) \<le> sint (right (run_touchpad evs))"
    unfolding l r using S by (rule Min_below_Max)
next
  assume ne: "y_values evs \<noteq> []"
  then have S: "finite (set (y_values evs))" "set (y_values evs) \<noteq> {}" by simp_all
  show t: "sint (top' (run_touchpad evs)) = Min (set (y_values evs))"
    unfolding run_touchpad_top using S y_values_bounded [of evs]
    by (intro Min_insert_upper) auto
  show b: "sint (bottom (run_touchpad evs)) = Max (set (y_values evs))"
    unfolding run_touchpad_bottom using S y_values_bounded [of evs]
    by (intro Max_insert_lower) auto
  show "sint (top' (run_touchpad evs)) \<le> sint (bottom (run_touchpad evs))"
    unfolding t b using S by (rule Min_below_Max)
next
  assume "x_values evs = []"
  then have "sint (left (run_touchpad evs)) = sint INT_MAX"
    by (simp add: run_touchpad_left)
  then show "left (run_touchpad evs) = INT_MAX" by (rule signed_word_eqI)
next
  assume "x_values evs = []"
  then have "sint (right (run_touchpad evs)) = sint INT_MIN"
    by (simp add: run_touchpad_right)
  then show "right (run_touchpad evs) = INT_MIN" by (rule signed_word_eqI)
next
  assume "y_values evs = []"
  then have "sint (top' (run_touchpad evs)) = sint INT_MAX"
    by (simp add: run_touchpad_top)
  then show "top' (run_touchpad evs) = INT_MAX" by (rule signed_word_eqI)
next
  assume "y_values evs = []"
  then have "sint (bottom (run_touchpad evs)) = sint INT_MIN"
    by (simp add: run_touchpad_bottom)
  then show "bottom (run_touchpad evs) = INT_MIN" by (rule signed_word_eqI)
qed

theorem touchpad_bounds_witness:
  "x_values stroke = [40, 25, 31] \<and> y_values stroke = [300, 310] \<and>
   sint (left (run_touchpad stroke)) = 25 \<and> sint (right (run_touchpad stroke)) = 40 \<and>
   sint (top' (run_touchpad stroke)) = 300 \<and> sint (bottom (run_touchpad stroke)) = 310 \<and>
   x_values [syn_at 0 0] = [] \<and> left (run_touchpad [syn_at 0 0]) = INT_MAX \<and>
   y_values [syn_at 0 0] = [] \<and> bottom (run_touchpad [syn_at 0 0]) = INT_MIN"
  using touchpad_bounds [of stroke] touchpad_bounds [of "[syn_at 0 0]"]
  by (simp add: stroke_def x_values_def y_values_def is_abs_x_def is_abs_y_def abs_event_def
      syn_at_def EV_SYN_def EV_ABS_def ABS_X_def ABS_Y_def ABS_MT_POSITION_X_def
      ABS_MT_POSITION_Y_def)


section \<open>The wait loop and desynchronization\<close>

lemma handled_append: "handled (xs @ ys) = handled xs @ handled ys"
  by (simp add: handled_def)

lemma desync_in_append: "desync_in (xs @ ys) = (desync_in xs \<or> desync_in ys)"
  by (auto simp: desync_in_def)

lemma desync_in_Cons: "desync_in (r # rs) = (fst r = LIBEVDEV_READ_STATUS_SYNC \<or> desync_in rs)"
  by (auto simp: desync_in_def)

lemma desync_in_Nil: "\<not> desync_in []"
  by (simp add: desync_in_def)

lemma handled_Cons:
  "handled ((rc, ev) # rs) =
     (if rc = LIBEVDEV_READ_STATUS_SUCCESS then ev # handled rs else handled rs)"
  by (simp add: handled_def)

text \<open>
  What the inner loop has done when it stops: it has performed a prefix of the reads, has
  handed the events of the successful ones to the handler in order, no read before the
  last one returned the desynchronization status, and if one did the loop returns 1.
\<close>

lemma read_loop_consumes:
  "read_loop h s rs = (c, s', rest) \<Longrightarrow>
   \<exists>pre. rs = pre @ rest \<and> s' = foldl h s (handled pre) \<and> \<not> desync_in (butlast pre) \<and>
     (desync_in pre \<longrightarrow> c = Return 1)"
proof (induction h s rs arbitrary: c s' rest rule: read_loop.induct)
  case (1 h s)
  then show ?case by (simp add: handled_def desync_in_def)
next
  case (2 h s rc ev rs)
  show ?case
  proof (cases "rc = LIBEVDEV_READ_STATUS_SYNC \<or> (rc \<noteq> - EAGAIN \<and> rc < 0)")
    case True
    with "2.prems" have "c = Return 1" "s' = s" "rest = rs"
      by (auto split: if_splits)
    moreover from True have "rc \<noteq> LIBEVDEV_READ_STATUS_SUCCESS"
      by (auto simp: LIBEVDEV_READ_STATUS_SUCCESS_def LIBEVDEV_READ_STATUS_SYNC_def)
    ultimately have "(rc, ev) # rs = [(rc, ev)] @ rest \<and> s' = foldl h s (handled [(rc, ev)]) \<and>
        \<not> desync_in (butlast [(rc, ev)]) \<and> (desync_in [(rc, ev)] \<longrightarrow> c = Return 1)"
      by (simp add: handled_Cons desync_in_Nil handled_def)
    then show ?thesis by blast
  next
    case False
    define s1 where "s1 = (if rc = LIBEVDEV_READ_STATUS_SUCCESS then h s ev else s)"
    have s1: "s1 = foldl h s (handled [(rc, ev)])"
      by (simp add: s1_def handled_def)
    from False have nosync: "\<not> desync_in [(rc, ev)]"
      by (simp add: desync_in_Cons desync_in_Nil)
    show ?thesis
    proof (cases "rc \<noteq> - EAGAIN")
      case True
      with False "2.prems" have "read_loop h s1 rs = (c, s', rest)"
        by (simp add: s1_def Let_def)
      with "2.IH" [OF _ _ s1_def True] False obtain pre where
        pre: "rs = pre @ rest" "s' = foldl h s1 (handled pre)" "\<not> desync_in (butlast pre)"
          "desync_in pre \<longrightarrow> c = Return 1"
        by blast
      have "\<not> desync_in (butlast ((rc, ev) # pre))"
        using pre(3) nosync by (cases pre) (simp_all add: desync_in_Cons desync_in_Nil)
      moreover have "desync_in ((rc, ev) # pre) \<longrightarrow> c = Return 1"
        using pre(4) nosync by (simp add: desync_in_Cons desync_in_Nil)
      moreover have "s' = foldl h s (handled ((rc, ev) # pre))"
        using pre(2) s1 by (simp add: handled_Cons handled_def)
      moreover have "(rc, ev) # rs = ((rc, ev) # pre) @ rest"
        using pre(1) by simp
      ultimately show ?thesis by blast
    next
      case eagain: False
      with False "2.prems" have "c = Again" "s' = s1" "rest = rs"
        by (auto simp: s1_def Let_def split: if_splits)
      with s1 nosync
      have "(rc, ev) # rs = [(rc, ev)] @ rest \<and> s' = foldl h s (handled [(rc, ev)]) \<and>
        \<not> desync_in (butlast [(rc, ev)]) \<and> (desync_in [(rc, ev)] \<longrightarrow> c = Return 1)"
        by (simp add: desync_in_Nil)
      then show ?thesis by blast
    qed
  qed
qed

lemma butlast_no_desync:
  "\<not> desync_in xs \<Longrightarrow> \<not> desync_in (butlast ys) \<Longrightarrow> \<not> desync_in (butlast (xs @ ys))"
  by (cases "ys = []") (auto simp: butlast_append desync_in_def dest: in_set_butlastD)

text \<open>The same for the outer loop, over all rounds of polling.\<close>

lemma wait_loop_consumes:
  "wait_loop h s ps rs = (rc, s', rest) \<Longrightarrow>
   \<exists>pre. rs = pre @ rest \<and> s' = foldl h s (handled pre) \<and> \<not> desync_in (butlast pre) \<and>
     (desync_in pre \<longrightarrow> rc = Some 1)"
proof (induction h s ps rs arbitrary: rc s' rest rule: wait_loop.induct)
  case (1 h s rs)
  then have "rs = [] @ rest \<and> s' = foldl h s (handled []) \<and> \<not> desync_in (butlast []) \<and>
     (desync_in [] \<longrightarrow> rc = Some 1)"
    by (simp add: handled_def desync_in_Nil)
  then show ?case by blast
next
  case (2 h s n interrupted ps rs)
  show ?case
  proof (cases "n = 0 \<or> interrupted")
    case True
    with "2.prems" have "rs = [] @ rest \<and> s' = foldl h s (handled []) \<and>
       \<not> desync_in (butlast []) \<and> (desync_in [] \<longrightarrow> rc = Some 1)"
      by (auto simp: handled_def desync_in_Nil split: if_splits)
    then show ?thesis by blast
  next
    case False
    obtain c s1 rs1 where rl: "read_loop h s rs = (c, s1, rs1)"
      by (cases "read_loop h s rs") auto
    from read_loop_consumes [OF rl] obtain pre1 where
      pre1: "rs = pre1 @ rs1" "s1 = foldl h s (handled pre1)" "\<not> desync_in (butlast pre1)"
        "desync_in pre1 \<longrightarrow> c = Return 1"
      by blast
    show ?thesis
    proof (cases c)
      case (Return r)
      with False rl "2.prems" have res: "rc = Some r" "s' = s1" "rest = rs1"
        by auto
      from pre1(4) Return have "desync_in pre1 \<longrightarrow> r = 1" by simp
      with res pre1 show ?thesis by blast
    next
      case Again
      with False rl "2.prems" have rec: "wait_loop h s1 ps rs1 = (rc, s', rest)"
        by auto
      from False have "n \<noteq> 0" "\<not> interrupted" by simp_all
      from "2.IH" [OF this rl [symmetric] _ refl rec] Again obtain pre2 where
        pre2: "rs1 = pre2 @ rest" "s' = foldl h s1 (handled pre2)" "\<not> desync_in (butlast pre2)"
          "desync_in pre2 \<longrightarrow> rc = Some 1"
        by auto
      from pre1(4) Again have no1: "\<not> desync_in pre1" by auto
      have "rs = (pre1 @ pre2) @ rest" using pre1(1) pre2(1) by simp
      moreover have "s' = foldl h s (handled (pre1 @ pre2))"
        using pre1(2) pre2(2) by (simp add: handled_append)
      moreover have "\<not> desync_in (butlast (pre1 @ pre2))"
        using no1 pre2(3) by (rule butlast_no_desync)
      moreover have "desync_in (pre1 @ pre2) \<longrightarrow> rc = Some 1"
        using no1 pre2(4) by (simp add: desync_in_append)
      ultimately show ?thesis by blast
    next
      case Starved
      with False rl "2.prems" have res: "rc = None" "s' = s1" "rest = rs1"
        by auto
      from pre1(4) Starved have "\<not> desync_in pre1" by auto
      with res pre1 show ?thesis by blast
    qed
  qed
qed

text \<open>
  When the reads performed are known to be \<open>pre\<close> and one of them returned the
  desynchronization status: that read is the last one, the loop returns 1, and the events
  handled are the successful reads before it.
\<close>

lemma wait_loop_desync:
  assumes run: "wait_loop h s ps (pre @ rest) = (rc, s', rest)" and sync: "desync_in pre"
  shows "rc = Some 1 \<and> fst (last pre) = LIBEVDEV_READ_STATUS_SYNC \<and>
         \<not> desync_in (butlast pre) \<and> s' = foldl h s (handled (butlast pre))"
proof -
  from wait_loop_consumes [OF run] obtain pre' where
    pre': "pre @ rest = pre' @ rest" "s' = foldl h s (handled pre')"
      "\<not> desync_in (butlast pre')" "desync_in pre' \<longrightarrow> rc = Some 1"
    by blast
  then have eq: "pre' = pre" by simp
  from sync have ne: "pre \<noteq> []" by (auto simp: desync_in_def)
  then have split: "pre = butlast pre @ [last pre]" by simp
  from sync pre'(3) eq have "desync_in [last pre]"
    using desync_in_append [of "butlast pre" "[last pre]"] split by auto
  then have last: "fst (last pre) = LIBEVDEV_READ_STATUS_SYNC"
    by (simp add: desync_in_Cons desync_in_Nil)
  then have "fst (last pre) \<noteq> LIBEVDEV_READ_STATUS_SUCCESS"
    by (simp add: LIBEVDEV_READ_STATUS_SUCCESS_def LIBEVDEV_READ_STATUS_SYNC_def)
  then have "handled [last pre] = []" by (simp add: handled_def)
  then have "handled pre = handled (butlast pre)"
    using handled_append [of "butlast pre" "[last pre]"] split by simp
  with pre' eq sync last show ?thesis by simp
qed

lemma main_touchpad_status:
  "Mainloop \<in> set (snd (main_touchpad env)) \<Longrightarrow>
   fst (main_touchpad env) = fst (mainloop_touchpad touchpad_initial (polls env) (reads env))"
  by (auto simp: main_touchpad_def split: if_splits prod.splits option.splits)

lemma main_mouse_status:
  "Mainloop \<in> set (snd (main_mouse env)) \<Longrightarrow>
   fst (main_mouse env) = fst (mainloop_mouse mouse_initial (polls env) (reads env))"
  by (auto simp: main_mouse_def split: if_splits prod.splits option.splits)

text \<open>
  C7. In a run of either tool, when a read returns \<open>LIBEVDEV_READ_STATUS_SYNC\<close> the wait
  loop returns 1 at once: that read is the last one performed, the events handled are
  the successful reads before it and no other, and \<open>main\<close>, having entered the loop,
  exits with the loop's status 1. Here \<open>pre\<close> are the reads the loop performed and \<open>rest\<close>
  the ones it left unread.
\<close>

theorem desync_ends_wait_loop:
  "(mainloop_touchpad d ps (pre @ rest) = (rc, d', rest) \<and> desync_in pre \<longrightarrow>
      rc = Some 1 \<and> fst (last pre) = LIBEVDEV_READ_STATUS_SYNC \<and>
      \<not> desync_in (butlast pre) \<and>
      d' = foldl handle_event_touchpad d (handled (butlast pre))) \<and>
   (mainloop_mouse m ps (pre @ rest) = (rc, m', rest) \<and> desync_in pre \<longrightarrow>
      rc = Some 1 \<and> fst (last pre) = LIBEVDEV_READ_STATUS_SYNC \<and>
      \<not> desync_in (butlast pre) \<and>
      m' = foldl handle_event_mouse m (handled (butlast pre))) \<and>
   (Mainloop \<in> set (snd (main_touchpad env)) \<and> reads env = pre @ rest \<and>
    snd (snd (mainloop_touchpad touchpad_initial (polls env) (reads env))) = rest \<and>
    desync_in pre \<longrightarrow>
      fst (main_touchpad env) = Some 1) \<and>
   (Mainloop \<in> set (snd (main_mouse env)) \<and> reads env = pre @ rest \<and>
    snd (snd (mainloop_mouse mouse_initial (polls env) (reads env))) = rest \<and>
    desync_in pre \<longrightarrow>
      fst (main_mouse env) = Some 1)"
proof -
  have touchpad_loop:
    "mainloop_touchpad d ps (pre @ rest) = (rc, d', rest) \<and> desync_in pre \<longrightarrow>
      rc = Some 1 \<and> fst (last pre) = LIBEVDEV_READ_STATUS_SYNC \<and>
      \<not> desync_in (butlast pre) \<and>
      d' = foldl handle_event_touchpad d (handled (butlast pre))"
  proof
    assume a: "mainloop_touchpad d ps (pre @ rest) = (rc, d', rest) \<and> desync_in pre"
    then have "wait_loop handle_event_touchpad d ps (pre @ rest) = (rc, d', rest)"
      by (simp add: mainloop_touchpad_def)
    from wait_loop_desync [OF this] a
    show "rc = Some 1 \<and> fst (last pre) = LIBEVDEV_READ_STATUS_SYNC \<and>
        \<not> desync_in (butlast pre) \<and>
        d' = foldl handle_event_touchpad d (handled (butlast pre))"
      by blast
  qed
  have mouse_loop:
    "mainloop_mouse m ps (pre @ rest) = (rc, m', rest) \<and> desync_in pre \<longrightarrow>
      rc = Some 1 \<and> fst (last pre) = LIBEVDEV_READ_STATUS_SYNC \<and>
      \<not> desync_in (butlast pre) \<and>
      m' = foldl handle_event_mouse m (handled (butlast pre))"
  proof
    assume a: "mainloop_mouse m ps (pre @ rest) = (rc, m', rest) \<and> desync_in pre"
    then have "wait_loop handle_event_mouse m ps (pre @ rest) = (rc, m', rest)"
      by (simp add: mainloop_mouse_def)
    from wait_loop_desync [OF this] a
    show "rc = Some 1 \<and> fst (last pre) = LIBEVDEV_READ_STATUS_SYNC \<and>
        \<not> desync_in (butlast pre) \<and>
        m' = foldl handle_event_mouse m (handled (butlast pre))"
      by blast
  qed
  have touchpad_exit:
    "Mainloop \<in> set (snd (main_touchpad env)) \<and> reads env = pre @ rest \<and>
     snd (snd (mainloop_touchpad touchpad_initial (polls env) (reads env))) = rest \<and>
     desync_in pre \<longrightarrow>
       fst (main_touchpad env) = Some 1"
  proof
    assume a: "Mainloop \<in> set (snd (main_touchpad env)) \<and> reads env = pre @ rest \<and>
      snd (snd (mainloop_touchpad touchpad_initial (polls env) (reads env))) = rest \<and>
      desync_in pre"
    obtain r s' where run:
      "wait_loop handle_event_touchpad touchpad_initial (polls env) (pre @ rest) = (r, s', rest)"
      using a by (cases "mainloop_touchpad touchpad_initial (polls env) (reads env)")
        (auto simp: mainloop_touchpad_def)
    from wait_loop_desync [OF run] a have "r = Some 1" by blast
    with run a have "fst (mainloop_touchpad touchpad_initial (polls env) (reads env)) = Some 1"
      by (simp add: mainloop_touchpad_def)
    with a show "fst (main_touchpad env) = Some 1"
      by (simp add: main_touchpad_status)
  qed
  have mouse_exit:
    "Mainloop \<in> set (snd (main_mouse env)) \<and> reads env = pre @ rest \<and>
     snd (snd (mainloop_mouse mouse_initial (polls env) (reads env))) = rest \<and>
     desync_in pre \<longrightarrow>
       fst (main_mouse env) = Some 1"
  proof
    assume a: "Mainloop \<in> set (snd (main_mouse env)) \<and> reads env = pre @ rest \<and>
      snd (snd (mainloop_mouse mouse_initial (polls env) (reads env))) = rest \<and>
      desync_in pre"
    obtain r s' where run:
      "wait_loop handle_event_mouse mouse_initial (polls env) (pre @ rest) = (r, s', rest)"
      using a by (cases "mainloop_mouse mouse_initial (polls env) (reads env)")
        (auto simp: mainloop_mouse_def)
    from wait_loop_desync [OF run] a have "r = Some 1" by blast
    with run a have "fst (mainloop_mouse mouse_initial (polls env) (reads env)) = Some 1"
      by (simp add: mainloop_mouse_def)
    with a show "fst (main_mouse env) = Some 1"
      by (simp add: main_mouse_status)
  qed
  from touchpad_loop mouse_loop touchpad_exit mouse_exit show ?thesis
    by (intro conjI)
qed

text \<open>The run on a device that overruns its reader after one event.\<close>

lemma overrun_touchpad:
  "mainloop_touchpad touchpad_initial [(1, False)] (overrun_reads @ unread_reads) =
     (Some 1, handle_event_touchpad touchpad_initial (abs_event ABS_X 5), unread_reads)"
  by (simp add: mainloop_touchpad_def overrun_reads_def unread_reads_def
      LIBEVDEV_READ_STATUS_SUCCESS_def LIBEVDEV_READ_STATUS_SYNC_def EAGAIN_def)

lemma overrun_mouse:
  "mainloop_mouse mouse_initial [(1, False)] (overrun_reads @ unread_reads) =
     (Some 1, handle_event_mouse mouse_initial (abs_event ABS_X 5), unread_reads)"
  by (simp add: mainloop_mouse_def overrun_reads_def unread_reads_def
      LIBEVDEV_READ_STATUS_SUCCESS_def LIBEVDEV_READ_STATUS_SYNC_def EAGAIN_def)

lemma overrun_desync: "desync_in overrun_reads"
  by (simp add: desync_in_def overrun_reads_def)

lemma overrun_device_touchpad: "Mainloop \<in> set (snd (main_touchpad overrun_device))"
  using overrun_touchpad
  by (simp add: main_touchpad_def overrun_device_def plain_device_def flag_shaped_def)

lemma overrun_device_mouse: "Mainloop \<in> set (snd (main_mouse overrun_device))"
  using overrun_mouse
  by (simp add: main_mouse_def overrun_device_def plain_device_def flag_shaped_def)

theorem desync_ends_wait_loop_witness:
  "fst (last overrun_reads) = LIBEVDEV_READ_STATUS_SYNC \<and>
   handle_event_touchpad touchpad_initial (abs_event ABS_X 5) =
     foldl handle_event_touchpad touchpad_initial (handled (butlast overrun_reads)) \<and>
   handle_event_mouse mouse_initial (abs_event ABS_X 5) =
     foldl handle_event_mouse mouse_initial (handled (butlast overrun_reads)) \<and>
   fst (main_touchpad overrun_device) = Some 1 \<and>
   fst (main_mouse overrun_device) = Some 1"
  using desync_ends_wait_loop [of touchpad_initial "[(1, False)]" overrun_reads unread_reads
      "Some 1" "handle_event_touchpad touchpad_initial (abs_event ABS_X 5)" mouse_initial
      "handle_event_mouse mouse_initial (abs_event ABS_X 5)" overrun_device]
    overrun_touchpad overrun_mouse overrun_desync overrun_device_touchpad overrun_device_mouse
  by (simp add: overrun_device_def plain_device_def)

section \<open>The exits of main\<close>

text \<open>
  C6. For every device without the \<open>EV_ABS\<close>/\<open>ABS_X\<close> or the \<open>EV_ABS\<close>/\<open>ABS_Y\<close> capability
  the touchpad tool exits with status 1 and never calls \<open>mainloop\<close>.
\<close>

theorem missing_axes_exit:
  assumes "\<not> has_event_code env EV_ABS ABS_X \<or> \<not> has_event_code env EV_ABS ABS_Y"
  shows "fst (main_touchpad env) = Some 1 \<and> Mainloop \<notin> set (snd (main_touchpad env))"
  using assms by (auto simp: main_touchpad_def EXIT_FAILURE_def)

theorem missing_axes_exit_witness:
  "\<not> has_event_code no_axes_device EV_ABS ABS_X \<and>
   fst (main_touchpad no_axes_device) = Some 1 \<and>
   Mainloop \<notin> set (snd (main_touchpad no_axes_device))"
  using missing_axes_exit [of no_axes_device]
  by (simp add: no_axes_device_def)

text \<open>
  C8. The claim: on every exit path of either \<open>main\<close>, the early returns included, the
  device handle is freed and the file descriptor closed before the process returns. When
  another process holds the grab, both tools return 1 after \<open>open\<close>, \<open>libevdev_new_from_fd\<close>
  and \<open>libevdev_grab\<close> without calling \<open>libevdev_free\<close> or \<open>close\<close>; when the device
  information cannot be fetched they return 1 without closing the descriptor. The
  missing-axes exit of the touchpad tool does release both.
\<close>

theorem early_returns_skip_release:
  "main_touchpad grabbed_device = (Some 1, [Open, New_from_fd, Grab]) \<and>
   main_mouse grabbed_device = (Some 1, [Open, New_from_fd, Grab]) \<and>
   main_touchpad opaque_device = (Some 1, [Open, New_from_fd]) \<and>
   main_mouse opaque_device = (Some 1, [Open, New_from_fd]) \<and>
   main_touchpad no_axes_device =
     (Some 1, [Open, New_from_fd, Grab, Ungrab, Libevdev_free, Close])"
  by (simp add: main_touchpad_def main_mouse_def grabbed_device_def opaque_device_def
      no_axes_device_def plain_device_def flag_shaped_def EXIT_FAILURE_def)

theorem early_returns_skip_release_witness:
  "Libevdev_free \<notin> set (snd (main_touchpad grabbed_device)) \<and>
   Close \<notin> set (snd (main_touchpad grabbed_device)) \<and>
   Libevdev_free \<notin> set (snd (main_mouse grabbed_device)) \<and>
   Close \<notin> set (snd (main_mouse grabbed_device)) \<and>
   Close \<notin> set (snd (main_touchpad opaque_device)) \<and>
   Close \<notin> set (snd (main_mouse opaque_device)) \<and>
   Close \<in> set (snd (main_touchpad no_axes_device))"
  using early_returns_skip_release by simp

end
